theory Spec2Isabelle
  imports Main "HOL-Library.Word" "HOL-Library.List_Lexorder" "HOL-Library.Char_ord"
begin

section \<open>The Quake log parser \<open>qlp\<close>\<close>

text \<open>
  The repository holds two versions of package \<open>qlp\<close>. The state-machine version (the one the
  tests are written against) closes a match on a divider line; its definitions carry the
  source's names. The older version in \<open>qlp/qlp.go\<close> uses \<open>InitGame\<close> as a separator between
  matches; where its names clash with the state-machine version they carry the suffix
  \<open>_sep\<close>.

  Go's \<open>int\<close> is modelled as a 64-bit word, Go strings as byte lists, Go maps as partial
  functions, and the set \<open>map[string]struct{}\<close> as a set of strings.
\<close>

type_synonym goint = "64 word"

subsection \<open>Regular expressions\<close>

text \<open>
  Package \<open>regexp\<close> returns the leftmost match and, among the matches that start there, the one a
  backtracking engine finds first. \<open>rmatch\<close> lists the matches of an expression at one
  position in that order of preference: each entry holds the captured groups, the matched
  text and the rest of the input. Repetition only occurs on character classes in the
  patterns of this package, so \<open>Star\<close>, \<open>Plus\<close> and \<open>Rep\<close> take a class. The classes and
  delimiters of the patterns are ASCII, so matching bytes and matching runes agree.
\<close>

datatype citem = Dig | Spc | Wrd | Dot | Ch char

fun in_item :: "citem \<Rightarrow> char \<Rightarrow> bool" where
  "in_item Dig c = (c \<in> set ''0123456789'')"
| "in_item Spc c = (c \<in> set [CHR 0x09, CHR 0x0A, CHR 0x0C, CHR 0x0D, CHR '' ''])"
| "in_item Wrd c =
     (c \<in> set ''0123456789ABCDEFGHIJKLMNOPQRSTUVWXYZ_abcdefghijklmnopqrstuvwxyz'')"
| "in_item Dot c = (c \<noteq> CHR 0x0A)"
| "in_item (Ch d) c = (c = d)"

definition in_class :: "citem list \<Rightarrow> char \<Rightarrow> bool" where
  "in_class cs c = list_ex (\<lambda>i. in_item i c) cs"

datatype regex =
    Bol
  | Cls "citem list"
  | Lit string
  | Star "citem list"
  | Plus "citem list"
  | Rep "citem list" nat nat
  | Then regex regex
  | Alt regex regex
  | Cap regex

fun star_m :: "citem list \<Rightarrow> string \<Rightarrow> (string \<times> string) list" where
  "star_m cs [] = [([], [])]"
| "star_m cs (x # xs) =
     (if in_class cs x then map (\<lambda>(m, r). (x # m, r)) (star_m cs xs) else [])
     @ [([], x # xs)]"

fun rep_m :: "citem list \<Rightarrow> nat \<Rightarrow> nat \<Rightarrow> string \<Rightarrow> (string \<times> string) list" where
  "rep_m cs lo 0 s = (if lo = 0 then [([], s)] else [])"
| "rep_m cs lo (Suc hi) s =
     (case s of
        [] \<Rightarrow> []
      | x # xs \<Rightarrow>
          if in_class cs x then map (\<lambda>(m, r). (x # m, r)) (rep_m cs (lo - 1) hi xs) else [])
     @ (if lo = 0 then [([], s)] else [])"

text \<open>\<open>strings.HasPrefix(s, prefix)\<close>.\<close>

fun HasPrefix :: "string \<Rightarrow> string \<Rightarrow> bool" where
  "HasPrefix s [] = True"
| "HasPrefix [] (p # ps) = False"
| "HasPrefix (x # xs) (p # ps) = (x = p \<and> HasPrefix xs ps)"

fun rmatch :: "regex \<Rightarrow> nat \<Rightarrow> string \<Rightarrow> (string list \<times> string \<times> string) list" where
  "rmatch Bol pos s = (if pos = 0 then [([], [], s)] else [])"
| "rmatch (Cls cs) pos s =
     (case s of [] \<Rightarrow> [] | x # xs \<Rightarrow> if in_class cs x then [([], [x], xs)] else [])"
| "rmatch (Lit l) pos s = (if HasPrefix s l then [([], l, drop (length l) s)] else [])"
| "rmatch (Star cs) pos s = map (\<lambda>(m, r). ([], m, r)) (star_m cs s)"
| "rmatch (Plus cs) pos s =
     (case s of
        [] \<Rightarrow> []
      | x # xs \<Rightarrow>
          if in_class cs x then map (\<lambda>(m, r). ([], x # m, r)) (star_m cs xs) else [])"
| "rmatch (Rep cs lo hi) pos s = map (\<lambda>(m, r). ([], m, r)) (rep_m cs lo hi s)"
| "rmatch (Then a b) pos s =
     concat (map (\<lambda>(g1, m1, r1).
               map (\<lambda>(g2, m2, r2). (g1 @ g2, m1 @ m2, r2)) (rmatch b (pos + length m1) r1))
             (rmatch a pos s))"
| "rmatch (Alt a b) pos s = rmatch a pos s @ rmatch b pos s"
| "rmatch (Cap a) pos s = map (\<lambda>(g, m, r). (m # g, m, r)) (rmatch a pos s)"

text \<open>The leftmost match: start offset, matched text, captured groups.\<close>

fun find_from :: "regex \<Rightarrow> nat \<Rightarrow> string \<Rightarrow> (nat \<times> string \<times> string list) option" where
  "find_from re pos s =
     (case rmatch re pos s of
        (g, m, r) # _ \<Rightarrow> Some (pos, m, g)
      | [] \<Rightarrow> (case s of [] \<Rightarrow> None | _ # t \<Rightarrow> find_from re (Suc pos) t))"

declare find_from.simps [simp del]

definition FindStringIndex :: "regex \<Rightarrow> string \<Rightarrow> (nat \<times> nat) option" where
  "FindStringIndex re s = map_option (\<lambda>(st, m, g). (st, st + length m)) (find_from re 0 s)"

text \<open>\<open>FindStringSubmatch\<close> returns the empty slice when nothing matches.\<close>

definition FindStringSubmatch :: "regex \<Rightarrow> string \<Rightarrow> string list" where
  "FindStringSubmatch re s =
     (case find_from re 0 s of None \<Rightarrow> [] | Some (st, m, g) \<Rightarrow> m # g)"

definition MatchString :: "regex \<Rightarrow> string \<Rightarrow> bool" where
  "MatchString re s = (find_from re 0 s \<noteq> None)"

fun seq :: "regex list \<Rightarrow> regex" where
  "seq [] = Lit []"
| "seq [r] = r"
| "seq (r # rs) = Then r (seq rs)"

text \<open>\<^verbatim>\<open>^\s*\d+:\d+\s|^\s*[\d\s:]+\<close>\<close>

definition lineHeaderExpr :: regex where
  "lineHeaderExpr =
     Alt (seq [Bol, Star [Spc], Plus [Dig], Lit '':'', Plus [Dig], Cls [Spc]])
         (seq [Bol, Star [Spc], Plus [Dig, Spc, Ch CHR '':'']])"

text \<open>\<^verbatim>\<open>(?:Kill:\s\d+\s\d+\s\d+:\s)(.+)(?:\skilled\s)(.+)(?:\sby\s)([\w]+)\<close>\<close>

definition killExpr :: regex where
  "killExpr =
     seq [Lit ''Kill:'', Cls [Spc], Plus [Dig], Cls [Spc], Plus [Dig], Cls [Spc], Plus [Dig],
          Lit '':'', Cls [Spc],
          Cap (Plus [Dot]), Cls [Spc], Lit ''killed'', Cls [Spc],
          Cap (Plus [Dot]), Cls [Spc], Lit ''by'', Cls [Spc],
          Cap (Plus [Wrd])]"

text \<open>\<^verbatim>\<open>^(?:\s+\d{1,2}:\d{2}\s)(InitGame|Kill)\<close>\<close>

definition eventExpr :: regex where
  "eventExpr =
     seq [Bol, Plus [Spc], Rep [Dig] 1 2, Lit '':'', Rep [Dig] 2 2, Cls [Spc],
          Cap (Alt (Lit ''InitGame'') (Lit ''Kill''))]"

text \<open>\<^verbatim>\<open>^(?:\s+\d{1,2}:\d{2}\s)(?:Kill:\s[\d\s]+:\s)(.+)(?:\skilled\s)(.+)(?:\sby\s)(.+)\<close>\<close>

definition killExpr_sep :: regex where
  "killExpr_sep =
     seq [Bol, Plus [Spc], Rep [Dig] 1 2, Lit '':'', Rep [Dig] 2 2, Cls [Spc],
          Lit ''Kill:'', Cls [Spc], Plus [Dig, Spc], Lit '':'', Cls [Spc],
          Cap (Plus [Dot]), Cls [Spc], Lit ''killed'', Cls [Spc],
          Cap (Plus [Dot]), Cls [Spc], Lit ''by'', Cls [Spc],
          Cap (Plus [Dot])]"

subsection \<open>Data model\<close>

record Match =
  TotalKills :: goint
  Players :: "string list"
  Kills :: "string \<rightharpoonup> goint"
  KillsByMeans :: "string \<rightharpoonup> goint"

text \<open>
  \<open>matchParser\<close> is the accumulator of the open match. The older version calls the same
  struct \<open>matchInfo\<close>.
\<close>

record matchParser =
  totalKills :: goint
  players :: "string set"
  kills :: "string \<rightharpoonup> goint"
  killsByMeans :: "string \<rightharpoonup> goint"

type_synonym matchInfo = matchParser

datatype error =
    LineMalformed goint
  | FailedToParseEvent error
  | MatchStillOpen
  | ReadFailure string
  | FailedToReadLog error
  | KillEventNotFound string
  | IndexOutOfRange
  | MarshalFailure string

definition digitChars :: string where
  "digitChars = ''0123456789''"

fun dec :: "nat \<Rightarrow> string" where
  "dec n = (if n < 10 then [digitChars ! n] else dec (n div 10) @ [digitChars ! (n mod 10)])"

declare dec.simps [simp del]

text \<open>The verb \<open>%d\<close> of \<open>fmt\<close> on a signed integer.\<close>

definition itoa :: "int \<Rightarrow> string" where
  "itoa i = (if i < 0 then ''-'' @ dec (nat (- i)) else dec (nat i))"

text \<open>The message of an error value, as \<open>fmt.Errorf\<close> and \<open>errors.New\<close> build it.\<close>

fun Error :: "error \<Rightarrow> string" where
  "Error (LineMalformed n) = ''line '' @ itoa (sint n) @ '' is malformed''"
| "Error (FailedToParseEvent e) = ''failed to parse event: '' @ Error e"
| "Error MatchStillOpen = ''log entries ended while a match was still open''"
| "Error (ReadFailure msg) = msg"
| "Error (FailedToReadLog e) = ''failed to read log file: '' @ Error e"
| "Error (KillEventNotFound line) = ''failed to find expected kill event at line '' @ line"
| "Error IndexOutOfRange = ''runtime error: index out of range''"
| "Error (MarshalFailure msg) = msg"

subsection \<open>Go maps\<close>

text \<open>Reading a missing key yields the zero value; \<open>m[k]++\<close> and \<open>m[k]--\<close> store the result.\<close>

definition mapGet :: "(string \<rightharpoonup> goint) \<Rightarrow> string \<Rightarrow> goint" where
  "mapGet m k = (case m k of None \<Rightarrow> 0 | Some v \<Rightarrow> v)"

definition mapInc :: "(string \<rightharpoonup> goint) \<Rightarrow> string \<Rightarrow> (string \<rightharpoonup> goint)" where
  "mapInc m k = m(k \<mapsto> mapGet m k + 1)"

definition mapDec :: "(string \<rightharpoonup> goint) \<Rightarrow> string \<Rightarrow> (string \<rightharpoonup> goint)" where
  "mapDec m k = m(k \<mapsto> mapGet m k - 1)"

text \<open>
  \<open>range\<close> over a map visits every key once, in an order the language leaves open. The
  order is a parameter: the keys are visited by increasing rank (ties by name), and every
  order of a finite key set arises from some rank.
\<close>

type_synonym keyOrder = "string \<Rightarrow> nat"

definition rangeKeys :: "keyOrder \<Rightarrow> string set \<Rightarrow> string list" where
  "rangeKeys rk S = sort_key rk (sorted_list_of_set S)"

text \<open>Two orders: by name, and by name but with \<open>Isgalamido\<close> last.\<close>

definition byName :: keyOrder where
  "byName s = 0"

definition isgalamidoLast :: keyOrder where
  "isgalamidoLast s = (if s = ''Isgalamido'' then 1 else 0)"

subsection \<open>Kill registration\<close>

definition newMatchParser :: matchParser where
  "newMatchParser =
     \<lparr>totalKills = 0, players = {}, kills = Map.empty, killsByMeans = Map.empty\<rparr>"

text \<open>The body of the loop over \<open>[...]string{killer, killed}\<close> in \<open>registerKill\<close>.\<close>

definition notePlayer :: "matchParser \<Rightarrow> string \<Rightarrow> matchParser" where
  "notePlayer m player =
     (if player = ''<world>'' then m
      else
        let m1 = (if kills m player = None then m\<lparr>kills := (kills m)(player \<mapsto> 0)\<rparr> else m)
        in m1\<lparr>players := insert player (players m1)\<rparr>)"

definition registerKill :: "matchParser \<Rightarrow> string \<Rightarrow> string \<Rightarrow> string \<Rightarrow> matchParser" where
  "registerKill m killer killed killedBy =
     (let m1 = m\<lparr>totalKills := totalKills m + 1\<rparr>;
          m2 = foldl notePlayer m1 [killer, killed];
          m3 = (if killer = ''<world>'' then m2\<lparr>kills := mapDec (kills m2) killed\<rparr>
                else if killer \<noteq> killed then m2\<lparr>kills := mapInc (kills m2) killer\<rparr>
                else m2)
      in m3\<lparr>killsByMeans := mapInc (killsByMeans m3) killedBy\<rparr>)"

definition getPlayerList :: "keyOrder \<Rightarrow> matchParser \<Rightarrow> string list" where
  "getPlayerList rk m = sort (rangeKeys rk (players m))"

subsection \<open>The state machine\<close>

datatype eventParser = LookingForGameParser | MatchParser matchParser

record logParser =
  evParser :: eventParser
  matches :: "Match list"

definition newLogParser :: logParser where
  "newLogParser = \<lparr>evParser = LookingForGameParser, matches = []\<rparr>"

definition lookingForGameParser_parseEvent ::
  "logParser \<Rightarrow> string \<Rightarrow> error + (eventParser \<times> logParser)" where
  "lookingForGameParser_parseEvent p event =
     (if \<not> HasPrefix event ''InitGame:'' then Inr (LookingForGameParser, p)
      else Inr (MatchParser newMatchParser, p))"

definition matchParser_parseEvent ::
  "keyOrder \<Rightarrow> matchParser \<Rightarrow> logParser \<Rightarrow> string \<Rightarrow> error + (eventParser \<times> logParser)" where
  "matchParser_parseEvent rk m p event =
     (if HasPrefix event ''---'' then
        let finishedMatch =
              \<lparr>TotalKills = totalKills m, Players = getPlayerList rk m,
               Kills = kills m, KillsByMeans = killsByMeans m\<rparr>
        in Inr (LookingForGameParser, p\<lparr>matches := matches p @ [finishedMatch]\<rparr>)
      else
        case FindStringSubmatch killExpr event of
          [] \<Rightarrow> Inr (MatchParser m, p)
        | _ # killer # killed # killedBy # _ \<Rightarrow>
            Inr (MatchParser (registerKill m killer killed killedBy), p)
        | _ \<Rightarrow> Inl IndexOutOfRange)"

text \<open>The dispatch on the dynamic type of \<open>evParser\<close>.\<close>

fun eventParser_parseEvent ::
  "keyOrder \<Rightarrow> eventParser \<Rightarrow> logParser \<Rightarrow> string \<Rightarrow> error + (eventParser \<times> logParser)" where
  "eventParser_parseEvent rk LookingForGameParser p event =
     lookingForGameParser_parseEvent p event"
| "eventParser_parseEvent rk (MatchParser m) p event = matchParser_parseEvent rk m p event"

definition logParser_parseEvent :: "keyOrder \<Rightarrow> logParser \<Rightarrow> string \<Rightarrow> error + logParser" where
  "logParser_parseEvent rk p event =
     (case eventParser_parseEvent rk (evParser p) p event of
        Inl err \<Rightarrow> Inl err
      | Inr (nextParser, p') \<Rightarrow> Inr (p'\<lparr>evParser := nextParser\<rparr>))"

subsection \<open>Reading the log\<close>

text \<open>
  A \<open>bufio.Scanner\<close> over the reader: \<open>tokens\<close> are the lines that \<open>Scan\<close> delivers before
  it returns false, \<open>failure\<close> is the read error that ended the stream (\<open>None\<close> at a clean
  end of file), and \<open>late\<close> counts the lines delivered after that error was recorded, while
  \<open>Err\<close> already reports it.
\<close>

record scanner =
  tokens :: "string list"
  failure :: "error option"
  late :: nat

text \<open>The loop of \<open>ParseLog\<close>; \<open>currentLine\<close> counts the lines read so far.\<close>

fun parseLines :: "keyOrder \<Rightarrow> logParser \<Rightarrow> goint \<Rightarrow> string list \<Rightarrow> error + logParser" where
  "parseLines rk parser currentLine [] = Inr parser"
| "parseLines rk parser currentLine (line # rest) =
     (let currentLine = currentLine + 1 in
      case FindStringIndex lineHeaderExpr line of
        None \<Rightarrow> Inl (LineMalformed currentLine)
      | Some (start, end) \<Rightarrow>
          (let event = drop end line in
           case eventParser_parseEvent rk (evParser parser) parser event of
             Inl err \<Rightarrow> Inl (FailedToParseEvent err)
           | Inr (nextParser, parser') \<Rightarrow>
               parseLines rk (parser'\<lparr>evParser := nextParser\<rparr>) currentLine rest))"

definition ParseLog :: "keyOrder \<Rightarrow> scanner \<Rightarrow> error + Match list" where
  "ParseLog rk log =
     (case parseLines rk newLogParser 0 (tokens log) of
        Inl err \<Rightarrow> Inl err
      | Inr parser \<Rightarrow>
          (case failure log of
             Some err \<Rightarrow> Inl err
           | None \<Rightarrow>
               (case evParser parser of
                  MatchParser m \<Rightarrow> Inl MatchStillOpen
                | LookingForGameParser \<Rightarrow> Inr (matches parser))))"

subsection \<open>The version that separates matches by \<open>InitGame\<close>\<close>

definition newMatchInfo :: matchInfo where
  "newMatchInfo =
     \<lparr>totalKills = 0, players = {}, kills = Map.empty, killsByMeans = Map.empty\<rparr>"

text \<open>The body of the loop over \<open>[...]string{killer, killed}\<close> in \<open>registerKillEvent\<close>.\<close>

definition notePlayer_sep :: "matchInfo \<Rightarrow> string \<Rightarrow> matchInfo" where
  "notePlayer_sep m player =
     (if player = ''<world>'' then m
      else
        let m1 = m\<lparr>players := insert player (players m)\<rparr>
        in if kills m1 player = None then m1\<lparr>kills := (kills m1)(player \<mapsto> 0)\<rparr> else m1)"

definition registerKillEvent :: "matchInfo \<Rightarrow> string \<Rightarrow> string \<Rightarrow> string \<Rightarrow> matchInfo" where
  "registerKillEvent m killer killed means =
     (let m2 = foldl notePlayer_sep m [killer, killed];
          m3 = (if killer = ''<world>'' then m2\<lparr>kills := mapDec (kills m2) killed\<rparr>
                else m2\<lparr>kills := mapInc (kills m2) killer\<rparr>)
      in m3\<lparr>killsByMeans := mapInc (killsByMeans m3) means\<rparr>)"

definition getPlayerList_sep :: "keyOrder \<Rightarrow> matchInfo \<Rightarrow> string list" where
  "getPlayerList_sep rk m = rangeKeys rk (players m)"

definition toMatch_sep :: "keyOrder \<Rightarrow> matchInfo \<Rightarrow> Match" where
  "toMatch_sep rk currentMatch =
     \<lparr>TotalKills = totalKills currentMatch, Players = getPlayerList_sep rk currentMatch,
      Kills = kills currentMatch, KillsByMeans = killsByMeans currentMatch\<rparr>"

text \<open>
  \<open>skipInitGameEvent\<close> reads up to and including the first line that matches \<open>eventExpr\<close>. It
  returns the lines left and whether it stopped at such a line.
\<close>

fun skipInitGameEvent :: "string list \<Rightarrow> string list \<times> bool" where
  "skipInitGameEvent [] = ([], False)"
| "skipInitGameEvent (line # rest) =
     (if MatchString eventExpr line then (rest, True) else skipInitGameEvent rest)"

fun parseLines_sep ::
  "keyOrder \<Rightarrow> matchInfo \<Rightarrow> Match list \<Rightarrow> string list \<Rightarrow> error + (matchInfo \<times> Match list)" where
  "parseLines_sep rk currentMatch ms [] = Inr (currentMatch, ms)"
| "parseLines_sep rk currentMatch ms (line # rest) =
     (case FindStringSubmatch eventExpr line of
        [] \<Rightarrow> parseLines_sep rk currentMatch ms rest
      | _ # event # _ \<Rightarrow>
          if event = ''InitGame'' then
            parseLines_sep rk newMatchInfo (ms @ [toMatch_sep rk currentMatch]) rest
          else
            (case FindStringSubmatch killExpr_sep line of
               [] \<Rightarrow> Inl (KillEventNotFound line)
             | _ # killer # killed # killedBy # _ \<Rightarrow>
                 parseLines_sep rk (registerKillEvent currentMatch killer killed killedBy) ms rest
             | _ \<Rightarrow> Inl IndexOutOfRange)
      | _ \<Rightarrow> Inl IndexOutOfRange)"

definition ParseLog_sep :: "keyOrder \<Rightarrow> scanner \<Rightarrow> error + Match list" where
  "ParseLog_sep rk source =
     (let (rest, stopped) = skipInitGameEvent (tokens source);
          skipErr = (if stopped \<and> late source \<le> length rest then None else failure source)
      in case skipErr of
           Some err \<Rightarrow> Inl (FailedToReadLog err)
         | None \<Rightarrow>
             (case parseLines_sep rk newMatchInfo [] rest of
                Inl err \<Rightarrow> Inl err
              | Inr (currentMatch, ms) \<Rightarrow>
                  (let ms' = ms @ [toMatch_sep rk currentMatch] in
                   case failure source of
                     Some err \<Rightarrow> Inl (FailedToReadLog err)
                   | None \<Rightarrow> Inr ms')))"

subsection \<open>The result formatter\<close>

text \<open>
  \<open>Matches.MarshalJSON\<close>, the same in both versions. \<open>json.Marshal\<close> on a single match belongs
  to the standard library and is the parameter \<open>marshal\<close>.
\<close>

fun marshalGames ::
  "(Match \<Rightarrow> error + string) \<Rightarrow> nat \<Rightarrow> nat \<Rightarrow> string \<Rightarrow> Match list \<Rightarrow> error + string" where
  "marshalGames marshal len i buff [] = Inr buff"
| "marshalGames marshal len i buff (game # rest) =
     (let buff1 = buff @ [CHR 0x22] @ ''game_'' @ dec (i + 1) @ [CHR 0x22] @ '':'' in
      case marshal game of
        Inl err \<Rightarrow> Inl err
      | Inr gameJSON \<Rightarrow>
          (let buff2 = buff1 @ gameJSON;
               hasNext = (int i < int len - 1);
               buff3 = (if hasNext then buff2 @ '','' else buff2)
           in marshalGames marshal len (i + 1) buff3 rest))"

definition MarshalJSON :: "(Match \<Rightarrow> error + string) \<Rightarrow> Match list \<Rightarrow> error + string" where
  "MarshalJSON marshal ms =
     (case marshalGames marshal (length ms) 0 ''{'' ms of
        Inl err \<Rightarrow> Inl err
      | Inr buff \<Rightarrow> Inr (buff @ ''}''))"

subsection \<open>Notions used in the statements\<close>

text \<open>The characters a line header can start with: a digit, white space or a colon.\<close>

definition headerStart :: "char \<Rightarrow> bool" where
  "headerStart c = in_class [Dig, Spc, Ch CHR '':''] c"

text \<open>The event of a line, that is what \<open>ParseLog\<close> passes on: the text after the header.\<close>

definition lineEvent :: "string \<Rightarrow> string option" where
  "lineEvent line =
     map_option (\<lambda>(start, end). drop end line) (FindStringIndex lineHeaderExpr line)"

text \<open>A line that the open match registers as a kill.\<close>

definition killLine :: "string \<Rightarrow> bool" where
  "killLine line =
     (case lineEvent line of
        None \<Rightarrow> False
      | Some event \<Rightarrow> FindStringSubmatch killExpr event \<noteq> [])"

text \<open>
  The number of groups of an expression, and the expressions whose alternatives all have
  the same number of groups, so that every match reports that many.
\<close>

fun caps :: "regex \<Rightarrow> nat" where
  "caps (Then a b) = caps a + caps b"
| "caps (Alt a b) = caps a"
| "caps (Cap a) = Suc (caps a)"
| "caps _ = 0"

fun uniform :: "regex \<Rightarrow> bool" where
  "uniform (Then a b) = (uniform a \<and> uniform b)"
| "uniform (Alt a b) = (uniform a \<and> uniform b \<and> caps a = caps b)"
| "uniform (Cap a) = uniform a"
| "uniform _ = True"

subsection \<open>Reading the keys of a JSON object\<close>

text \<open>
  The specification reads the output back: \<open>objectKeys\<close> parses a JSON text that is an object
  and returns the names of its members in the order they are written. A member's value is
  skipped by \<open>skipValue\<close>, which follows strings, escapes and the nesting of brackets. Names
  are returned as written, escapes undecoded.
\<close>

definition dquote :: char where
  "dquote = CHR 0x22"

definition bslash :: char where
  "bslash = CHR 0x5C"

definition isWs :: "char \<Rightarrow> bool" where
  "isWs c = (c \<in> set [CHR '' '', CHR 0x09, CHR 0x0A, CHR 0x0D])"

definition skipWs :: "string \<Rightarrow> string" where
  "skipWs s = dropWhile isWs s"

datatype jmode = Plain | InString | Escaped

fun scanValue :: "nat \<Rightarrow> jmode \<Rightarrow> string \<Rightarrow> string option" where
  "scanValue d mode [] = None"
| "scanValue d InString (c # cs) =
     (if c = dquote then (if d = 0 then Some cs else scanValue d Plain cs)
      else if c = bslash then scanValue d Escaped cs
      else scanValue d InString cs)"
| "scanValue d Escaped (c # cs) = scanValue d InString cs"
| "scanValue d Plain (c # cs) =
     (if c = dquote then scanValue d InString cs
      else if c = CHR ''{'' \<or> c = CHR ''['' then scanValue (Suc d) Plain cs
      else if c = CHR ''}'' \<or> c = CHR '']'' then
        (if d \<le> 1 then (if d = 1 then Some cs else None) else scanValue (d - 1) Plain cs)
      else scanValue d Plain cs)"

definition isDelim :: "char \<Rightarrow> bool" where
  "isDelim c = (isWs c \<or> c \<in> set '',}]'')"

definition skipValue :: "string \<Rightarrow> string option" where
  "skipValue s =
     (case skipWs s of
        [] \<Rightarrow> None
      | c # cs \<Rightarrow>
          if c = dquote then scanValue 0 InString cs
          else if c = CHR ''{'' \<or> c = CHR ''['' then scanValue 1 Plain cs
          else if isDelim c then None
          else Some (dropWhile (\<lambda>x. \<not> isDelim x) cs))"

fun readString :: "string \<Rightarrow> (string \<times> string) option" where
  "readString [] = None"
| "readString [c] = (if c = dquote then Some ([], []) else None)"
| "readString (c # e # cs) =
     (if c = dquote then Some ([], e # cs)
      else if c = bslash then map_option (\<lambda>(k, r). (c # e # k, r)) (readString cs)
      else map_option (\<lambda>(k, r). (c # k, r)) (readString (e # cs)))"

text \<open>The members after the opening brace; \<open>fuel\<close> bounds their number.\<close>

fun members :: "nat \<Rightarrow> string \<Rightarrow> string list option" where
  "members 0 s = None"
| "members (Suc fuel) s =
     (case skipWs s of
        [] \<Rightarrow> None
      | c # cs \<Rightarrow>
          if c \<noteq> dquote then None
          else
            (case readString cs of
               None \<Rightarrow> None
             | Some (k, r1) \<Rightarrow>
                 (case skipWs r1 of
                    [] \<Rightarrow> None
                  | c2 # r2 \<Rightarrow>
                      if c2 \<noteq> CHR '':'' then None
                      else
                        (case skipValue r2 of
                           None \<Rightarrow> None
                         | Some r3 \<Rightarrow>
                             (case skipWs r3 of
                                [] \<Rightarrow> None
                              | c4 # r4 \<Rightarrow>
                                  if c4 = CHR '','' then map_option ((#) k) (members fuel r4)
                                  else if c4 = CHR ''}'' \<and> skipWs r4 = [] then Some [k]
                                  else None)))))"

definition objectKeys :: "string \<Rightarrow> string list option" where
  "objectKeys s =
     (case skipWs s of
        [] \<Rightarrow> None
      | c # cs \<Rightarrow>
          if c \<noteq> CHR ''{'' then None
          else
            (case skipWs cs of
               [] \<Rightarrow> None
             | c' # cs' \<Rightarrow>
                 if c' = CHR ''}'' then (if skipWs cs' = [] then Some [] else None)
                 else members (length s) cs))"

text \<open>
  A text is a self-delimiting JSON value (an object, an array or a string) when \<open>skipValue\<close>
  consumes exactly it, whatever follows. \<open>json.Marshal\<close> of a \<open>Match\<close> yields such a text, an
  object, and no error.
\<close>

definition jsonValue :: "string \<Rightarrow> bool" where
  "jsonValue js = (\<forall>rest. skipValue (js @ rest) = Some rest)"

definition gameKey :: "nat \<Rightarrow> string" where
  "gameKey i = ''game_'' @ dec i"

section \<open>Properties\<close>

subsection \<open>The patterns\<close>

lemma star_m_nonempty: "star_m cs s \<noteq> []"
  by (cases s) auto

lemma star_m_last: "\<exists>xs. star_m cs s = xs @ [([], s)]"
  by (cases s) auto

lemma rmatch_header_pos: "rmatch lineHeaderExpr (Suc pos) s = []"
  by (simp add: lineHeaderExpr_def)

lemma find_header_pos: "find_from lineHeaderExpr (Suc pos) s = None"
  by (induction s arbitrary: pos) (simp_all add: find_from.simps[of _ "Suc _"] rmatch_header_pos del: rmatch.simps)

lemma rmatch_header_Nil: "rmatch lineHeaderExpr 0 [] = []"
  by (simp add: lineHeaderExpr_def)

lemma rmatch_header_bad: "\<not> headerStart x \<Longrightarrow> rmatch lineHeaderExpr 0 (x # xs) = []"
  by (simp add: lineHeaderExpr_def headerStart_def in_class_def)

lemma rmatch_header_good: "headerStart x \<Longrightarrow> rmatch lineHeaderExpr 0 (x # xs) \<noteq> []"
proof -
  assume h: "headerStart x"
  obtain ys where ys: "star_m [Spc] (x # xs) = ys @ [([], x # xs)]"
    using star_m_last by blast
  have "rmatch (Then Bol (Then (Star [Spc]) (Plus [Dig, Spc, Ch CHR '':'']))) 0 (x # xs) \<noteq> []"
    using h star_m_nonempty[of "[Dig, Spc, Ch CHR '':'']" xs]
    by (simp add: ys headerStart_def del: star_m.simps)
  then show ?thesis by (simp add: lineHeaderExpr_def del: rmatch.simps(7))
qed

lemma find_header_None:
  "find_from lineHeaderExpr 0 line = None \<longleftrightarrow> (line = [] \<or> \<not> headerStart (hd line))"
proof (cases line)
  case Nil
  then show ?thesis by (simp add: find_from.simps[of _ 0] rmatch_header_Nil del: rmatch.simps)
next
  case (Cons x xs)
  show ?thesis
  proof (cases "headerStart x")
    case True
    then obtain g m r rs where "rmatch lineHeaderExpr 0 (x # xs) = (g, m, r) # rs"
      using rmatch_header_good[of x xs] by (cases "rmatch lineHeaderExpr 0 (x # xs)") auto
    then show ?thesis using True Cons by (simp add: find_from.simps[of _ 0] del: rmatch.simps)
  next
    case False
    then show ?thesis using Cons
      by (simp add: find_from.simps[of _ 0] rmatch_header_bad find_header_pos del: rmatch.simps)
  qed
qed

lemma FindStringIndex_header_None:
  "FindStringIndex lineHeaderExpr line = None \<longleftrightarrow> (line = [] \<or> \<not> headerStart (hd line))"
  by (simp add: FindStringIndex_def find_header_None)

lemma rmatch_caps:
  "uniform re \<Longrightarrow> (g, m, r) \<in> set (rmatch re pos s) \<Longrightarrow> length g = caps re"
proof (induction re arbitrary: pos s g m r)
  case (Then a b)
  then show ?case by (fastforce)
next
  case (Cls cs)
  then show ?case by (auto split: list.splits if_splits)
next
  case (Plus cs)
  then show ?case by (auto split: list.splits if_splits)
qed (auto split: list.splits if_splits)

lemma find_from_Some:
  "find_from re pos s = Some (st, m, g) \<Longrightarrow> \<exists>pos' s' r. (g, m, r) \<in> set (rmatch re pos' s')"
proof (induction s arbitrary: pos)
  case Nil
  show ?case
  proof (cases "rmatch re pos []")
    case Nil
    with \<open>find_from re pos [] = Some (st, m, g)\<close> show ?thesis
      by (simp add: find_from.simps[of re pos "[]"])
  next
    case (Cons a as)
    obtain g' m' r' where a: "a = (g', m', r')" by (cases a)
    with Cons \<open>find_from re pos [] = Some (st, m, g)\<close> have "g' = g" "m' = m"
      by (simp_all add: find_from.simps[of re pos "[]"])
    then have "(g, m, r') \<in> set (rmatch re pos [])" using Cons a by simp
    then show ?thesis by blast
  qed
next
  case (Cons x xs)
  show ?case
  proof (cases "rmatch re pos (x # xs)")
    case Nil
    with Cons.prems have "find_from re (Suc pos) xs = Some (st, m, g)"
      by (simp add: find_from.simps[of re pos "x # xs"])
    then show ?thesis by (rule Cons.IH)
  next
    case (Cons a as)
    obtain g' m' r' where a: "a = (g', m', r')" by (cases a)
    with Cons Cons.prems have "g' = g" "m' = m"
      by (simp_all add: find_from.simps[of re pos "x # xs"])
    then have "(g, m, r') \<in> set (rmatch re pos (x # xs))" using Cons a by simp
    then show ?thesis by blast
  qed
qed

lemma killExpr_uniform: "uniform killExpr \<and> caps killExpr = 3"
  by (simp add: killExpr_def)

lemma FindStringSubmatch_killExpr:
  "FindStringSubmatch killExpr ev = [] \<or>
   (\<exists>w killer killed killedBy. FindStringSubmatch killExpr ev = [w, killer, killed, killedBy])"
proof (cases "find_from killExpr 0 ev")
  case None
  then show ?thesis by (simp add: FindStringSubmatch_def)
next
  case (Some a)
  obtain st m g where a: "a = (st, m, g)" by (cases a)
  with Some obtain pos' s' r where "(g, m, r) \<in> set (rmatch killExpr pos' s')"
    using find_from_Some by blast
  then have "length g = 3" using rmatch_caps killExpr_uniform by metis
  then obtain x y z where "g = [x, y, z]"
    by (cases g; cases "tl g"; cases "tl (tl g)") auto
  then show ?thesis using Some a by (simp add: FindStringSubmatch_def)
qed

lemma matchParser_parseEvent_Inr:
  "\<exists>nxt. matchParser_parseEvent rk m p event = Inr (nxt, p\<lparr>matches := matches p @ (if HasPrefix event ''---'' then [\<lparr>TotalKills = totalKills m, Players = getPlayerList rk m,
               Kills = kills m, KillsByMeans = killsByMeans m\<rparr>] else [])\<rparr>)"
  using FindStringSubmatch_killExpr[of event]
  by (auto simp: matchParser_parseEvent_def)

text \<open>The facts that evaluate a pattern on a given line.\<close>

lemmas rx_eval = FindStringIndex_def FindStringSubmatch_def MatchString_def find_from.simps
  lineHeaderExpr_def killExpr_def eventExpr_def killExpr_sep_def in_class_def numeral_2_eq_2

subsection \<open>Malformed lines\<close>

lemma eventParser_parseEvent_Inr:
  "\<exists>nxt p'. eventParser_parseEvent rk ev p event = Inr (nxt, p')"
proof (cases ev)
  case LookingForGameParser
  then show ?thesis by (simp add: lookingForGameParser_parseEvent_def)
next
  case (MatchParser m)
  then show ?thesis using matchParser_parseEvent_Inr[of rk m p event] by auto
qed

lemma parseLines_bad_head:
  "FindStringIndex lineHeaderExpr line = None \<Longrightarrow>
   parseLines rk p n (line # rest) = Inl (LineMalformed (n + 1))"
  by simp








subsection \<open>The end of the input\<close>

lemma lineEvent_None: "lineEvent l = None \<longleftrightarrow> FindStringIndex lineHeaderExpr l = None"
  by (simp add: lineEvent_def)

lemma parseLines_step:
  assumes "lineEvent l = Some ev"
  shows "\<exists>nxt p'. eventParser_parseEvent rk (evParser p) p ev = Inr (nxt, p') \<and>
           parseLines rk p n (l # rest) = parseLines rk (p'\<lparr>evParser := nxt\<rparr>) (n + 1) rest"
proof -
  from assms obtain st e where se: "FindStringIndex lineHeaderExpr l = Some (st, e)"
    and ev: "ev = drop e l"
    by (auto simp: lineEvent_def)
  obtain nxt p' where "eventParser_parseEvent rk (evParser p) p ev = Inr (nxt, p')"
    using eventParser_parseEvent_Inr by blast
  then show ?thesis using se ev by (auto simp: Let_def)
qed

lemma parseLines_headers:
  "\<forall>l \<in> set ls. lineEvent l \<noteq> None \<Longrightarrow> \<exists>p'. parseLines rk p n ls = Inr p'"
proof (induction ls arbitrary: p n)
  case Nil
  then show ?case by simp
next
  case (Cons l ls)
  then obtain ev where "lineEvent l = Some ev" by auto
  then obtain nxt p' where
    "parseLines rk p n (l # ls) = parseLines rk (p'\<lparr>evParser := nxt\<rparr>) (n + 1) ls"
    using parseLines_step by blast
  then show ?case using Cons by (auto simp del: parseLines.simps)
qed

lemma parseLines_append:
  "parseLines rk p n a = Inr p' \<Longrightarrow>
   parseLines rk p n (a @ b) = parseLines rk p' (n + of_nat (length a)) b"
proof (induction a arbitrary: p n)
  case Nil
  then show ?case by simp
next
  case (Cons l a)
  show ?case
  proof (cases "lineEvent l")
    case None
    with Cons.prems show ?thesis by (simp add: lineEvent_None)
  next
    case (Some ev)
    then obtain nxt q where
      st: "\<And>rest. parseLines rk p n (l # rest) = parseLines rk (q\<lparr>evParser := nxt\<rparr>) (n + 1) rest"
      using parseLines_step[of l ev rk p n] by (metis Pair_inject sum.inject(2))
    with Cons.prems have "parseLines rk (q\<lparr>evParser := nxt\<rparr>) (n + 1) a = Inr p'"
      by (simp del: parseLines.simps)
    then have "parseLines rk (q\<lparr>evParser := nxt\<rparr>) (n + 1) (a @ b)
               = parseLines rk p' (n + 1 + of_nat (length a)) b"
      by (rule Cons.IH)
    then show ?thesis using st[of "a @ b"] by (simp add: ac_simps del: parseLines.simps)
  qed
qed

lemma HasPrefix_InitGame_not_divider:
  "HasPrefix ev ''InitGame:'' \<Longrightarrow> \<not> HasPrefix ev ''---''"
  by (cases ev) auto

lemma matchParser_parseEvent_stays:
  "\<not> HasPrefix ev ''---'' \<Longrightarrow> \<exists>m'. matchParser_parseEvent rk m p ev = Inr (MatchParser m', p)"
  using FindStringSubmatch_killExpr[of ev]
  by (auto simp: matchParser_parseEvent_def)

lemma parseLines_stays_open:
  assumes "\<forall>x \<in> set ls. lineEvent x \<noteq> None"
    and "\<forall>x \<in> set ls. \<forall>ev. lineEvent x = Some ev \<longrightarrow> \<not> HasPrefix ev ''---''"
    and "evParser p = MatchParser m"
  shows "\<exists>p' m'. parseLines rk p n ls = Inr p' \<and> evParser p' = MatchParser m' \<and>
           matches p' = matches p"
  using assms
proof (induction ls arbitrary: p n m)
  case Nil
  then show ?case by simp
next
  case (Cons l ls)
  then obtain ev where ev: "lineEvent l = Some ev" by auto
  with Cons.prems have nd: "\<not> HasPrefix ev ''---''" by simp
  obtain m' where m': "eventParser_parseEvent rk (evParser p) p ev = Inr (MatchParser m', p)"
    using matchParser_parseEvent_stays[OF nd] Cons.prems(3) by (metis eventParser_parseEvent.simps(2))
  from parseLines_step[OF ev, of rk p n ls] m'
  have st: "parseLines rk p n (l # ls) = parseLines rk (p\<lparr>evParser := MatchParser m'\<rparr>) (n + 1) ls"
    by (auto simp del: parseLines.simps)
  have "\<exists>p' m''. parseLines rk (p\<lparr>evParser := MatchParser m'\<rparr>) (n + 1) ls = Inr p' \<and>
          evParser p' = MatchParser m'' \<and> matches p' = matches (p\<lparr>evParser := MatchParser m'\<rparr>)"
    using Cons.prems by (intro Cons.IH) auto
  then show ?case using st by (auto simp del: parseLines.simps)
qed

text \<open>
  Claim C4, for the state-machine version: take an input whose lines all have a header, with
  a line whose event starts with \<open>InitGame:\<close> and no divider event after it, read to a clean end
  of file. The match that line opened (or left open) is still open at the end of the input,
  and \<open>ParseLog\<close> fails with the error \<open>log entries ended while a match was still open\<close>; the
  result is an error, so no match is returned.
\<close>

theorem ParseLog_match_still_open:
  assumes "\<forall>x \<in> set (a @ l # b). lineEvent x \<noteq> None"
    and "\<exists>ev. lineEvent l = Some ev \<and> HasPrefix ev ''InitGame:''"
    and "\<forall>x \<in> set b. \<forall>ev. lineEvent x = Some ev \<longrightarrow> \<not> HasPrefix ev ''---''"
  shows "ParseLog rk \<lparr>tokens = a @ l # b, failure = None, late = k\<rparr> = Inl MatchStillOpen \<and>
         Error MatchStillOpen = ''log entries ended while a match was still open''"
proof -
  from assms(2) obtain ev where ev: "lineEvent l = Some ev" and ig: "HasPrefix ev ''InitGame:''"
    by blast
  have "\<forall>x \<in> set a. lineEvent x \<noteq> None" using assms(1) by simp
  then obtain p1 where p1: "parseLines rk newLogParser 0 a = Inr p1"
    using parseLines_headers by blast
  have "\<exists>m q. eventParser_parseEvent rk (evParser p1) p1 ev = Inr (MatchParser m, q)"
  proof (cases "evParser p1")
    case LookingForGameParser
    then show ?thesis using ig by (simp add: lookingForGameParser_parseEvent_def)
  next
    case (MatchParser m)
    then show ?thesis
      using matchParser_parseEvent_stays[OF HasPrefix_InitGame_not_divider[OF ig], of rk m p1]
      by auto
  qed
  then obtain m q where
    "eventParser_parseEvent rk (evParser p1) p1 ev = Inr (MatchParser m, q)" by blast
  with parseLines_step[OF ev, of rk p1 "of_nat (length a)" b]
  have st: "parseLines rk p1 (of_nat (length a)) (l # b)
            = parseLines rk (q\<lparr>evParser := MatchParser m\<rparr>) (of_nat (length a) + 1) b"
    by (auto simp del: parseLines.simps)
  have hb: "\<forall>x \<in> set b. lineEvent x \<noteq> None" using assms(1) by simp
  have "\<exists>p' m'. parseLines rk (q\<lparr>evParser := MatchParser m\<rparr>) (of_nat (length a) + 1) b = Inr p' \<and>
          evParser p' = MatchParser m' \<and> matches p' = matches (q\<lparr>evParser := MatchParser m\<rparr>)"
    by (rule parseLines_stays_open[OF hb assms(3)]) simp
  then obtain p' m' where
    "parseLines rk (q\<lparr>evParser := MatchParser m\<rparr>) (of_nat (length a) + 1) b = Inr p'"
    "evParser p' = MatchParser m'"
    by blast
  then have "parseLines rk newLogParser 0 (a @ l # b) = Inr p' \<and> evParser p' = MatchParser m'"
    using parseLines_append[OF p1, of "l # b"] st by (simp del: parseLines.simps)
  then show ?thesis by (simp add: ParseLog_def)
qed

theorem ParseLog_match_still_open_witness:
  "ParseLog byName
     \<lparr>tokens = [''  0:00 ------------------------------------------------------------'',
                ''  0:00 InitGame:'',
                '' 20:54 Kill: 1022 2 22: <world> killed Isgalamido by MOD_TRIGGER_HURT''],
      failure = None, late = 0\<rparr>
   = Inl MatchStillOpen"
proof -
  let ?a = "[''  0:00 ------------------------------------------------------------'']"
  let ?l = "''  0:00 InitGame:''"
  let ?b = "['' 20:54 Kill: 1022 2 22: <world> killed Isgalamido by MOD_TRIGGER_HURT'']"
  have 1: "\<forall>x \<in> set (?a @ ?l # ?b). lineEvent x \<noteq> None"
    by (simp add: lineEvent_None FindStringIndex_header_None headerStart_def in_class_def)
  have 2: "\<exists>ev. lineEvent ?l = Some ev \<and> HasPrefix ev ''InitGame:''"
    by (simp add: lineEvent_def rx_eval)
  have 3: "\<forall>x \<in> set ?b. \<forall>ev. lineEvent x = Some ev \<longrightarrow> \<not> HasPrefix ev ''---''"
    by (simp add: lineEvent_def rx_eval)
  show ?thesis using ParseLog_match_still_open[OF 1 2 3, of byName 0] by simp
qed

text \<open>
  The version that separates matches by \<open>InitGame\<close> appends the match it is accumulating when
  the input ends, and reports no error.
\<close>

theorem ParseLog_sep_returns_trailing_match:
  "ParseLog_sep byName
     \<lparr>tokens = [''  0:00 ------------------------------------------------------------'',
                ''  0:00 InitGame:'',
                '' 20:54 Kill: 1022 2 22: <world> killed Isgalamido by MOD_TRIGGER_HURT''],
      failure = None, late = 0\<rparr>
   = Inr [\<lparr>TotalKills = 0, Players = [''Isgalamido''], Kills = [''Isgalamido'' \<mapsto> - 1],
           KillsByMeans = [''MOD_TRIGGER_HURT'' \<mapsto> 1]\<rparr>]"
  by (simp add: rx_eval ParseLog_sep_def toMatch_sep_def newMatchInfo_def getPlayerList_sep_def
      rangeKeys_def byName_def isgalamidoLast_def registerKillEvent_def notePlayer_sep_def mapInc_def mapDec_def mapGet_def)

subsection \<open>Kill registration\<close>

lemmas kill_defs = registerKill_def notePlayer_def registerKillEvent_def notePlayer_sep_def
  mapInc_def mapDec_def mapGet_def

lemma registerKill_totalKills: "totalKills (registerKill m killer killed cause) = totalKills m + 1"
  by (simp add: kill_defs Let_def)

lemma registerKill_killsByMeans:
  "killsByMeans (registerKill m killer killed cause)
   = (killsByMeans m)(cause \<mapsto> mapGet (killsByMeans m) cause + 1)"
  by (simp add: kill_defs Let_def)

lemma registerKillEvent_totalKills:
  "totalKills (registerKillEvent m killer killed means) = totalKills m"
  by (simp add: kill_defs Let_def)

text \<open>
  Claim C5: a kill whose killer is the sentinel \<open><world>\<close> and whose victim is a player lowers
  the victim's differential by 1 (from 0 when the victim had no entry), and leaves the
  sentinel's entry in the kills map and its membership in the player set as they were: no
  entry is created for the sentinel. Both versions of the registration do so.
\<close>

theorem world_kill_decrements_victim:
  assumes "killed \<noteq> ''<world>''"
  shows "kills (registerKill m ''<world>'' killed cause) killed = Some (mapGet (kills m) killed - 1) \<and>
         kills (registerKill m ''<world>'' killed cause) ''<world>'' = kills m ''<world>'' \<and>
         (''<world>'' \<in> players (registerKill m ''<world>'' killed cause)) = (''<world>'' \<in> players m) \<and>
         kills (registerKillEvent m ''<world>'' killed cause) killed = Some (mapGet (kills m) killed - 1) \<and>
         kills (registerKillEvent m ''<world>'' killed cause) ''<world>'' = kills m ''<world>'' \<and>
         (''<world>'' \<in> players (registerKillEvent m ''<world>'' killed cause)) = (''<world>'' \<in> players m)"
  using assms by (auto simp: kill_defs Let_def split: option.splits)

theorem world_kill_decrements_victim_witness:
  "kills (registerKill newMatchParser ''<world>'' ''Mocinha'' ''MOD_ROCKET'') ''Mocinha'' = Some (- 1) \<and>
   kills (registerKill newMatchParser ''<world>'' ''Mocinha'' ''MOD_ROCKET'') ''<world>'' = None \<and>
   ''<world>'' \<notin> players (registerKill newMatchParser ''<world>'' ''Mocinha'' ''MOD_ROCKET'') \<and>
   kills (registerKillEvent newMatchInfo ''<world>'' ''Mocinha'' ''MOD_ROCKET'') ''Mocinha'' = Some (- 1) \<and>
   kills (registerKillEvent newMatchInfo ''<world>'' ''Mocinha'' ''MOD_ROCKET'') ''<world>'' = None \<and>
   ''<world>'' \<notin> players (registerKillEvent newMatchInfo ''<world>'' ''Mocinha'' ''MOD_ROCKET'')"
proof -
  have h: "''Mocinha'' \<noteq> ''<world>''" by simp
  have n: "kills newMatchParser = Map.empty" "players newMatchParser = {}"
    "kills newMatchInfo = Map.empty" "players newMatchInfo = {}"
    by (simp_all add: newMatchParser_def newMatchInfo_def)
  show ?thesis
    using world_kill_decrements_victim[OF h, of newMatchParser "''MOD_ROCKET''"]
      world_kill_decrements_victim[OF h, of newMatchInfo "''MOD_ROCKET''"]
    by (simp add: n mapGet_def)
qed

text \<open>
  Claim C6, for the state-machine version: when a player kills themselves, no differential
  changes (the player gets an entry with 0 when there was none), \<open>totalKills\<close> grows by 1, the
  count of the cause grows by 1 and no other cause changes.
\<close>

theorem self_kill_changes_no_differential:
  assumes "killer \<noteq> ''<world>''"
  shows "(\<forall>p. mapGet (kills (registerKill m killer killer cause)) p = mapGet (kills m) p) \<and>
         totalKills (registerKill m killer killer cause) = totalKills m + 1 \<and>
         mapGet (killsByMeans (registerKill m killer killer cause)) cause
           = mapGet (killsByMeans m) cause + 1 \<and>
         (\<forall>c. c \<noteq> cause \<longrightarrow>
            killsByMeans (registerKill m killer killer cause) c = killsByMeans m c)"
  using assms by (auto simp: kill_defs Let_def split: option.splits)

theorem self_kill_changes_no_differential_witness:
  "mapGet (kills (registerKill newMatchParser ''Zeh'' ''Zeh'' ''MOD_ROCKET'')) ''Zeh'' = 0 \<and>
   totalKills (registerKill newMatchParser ''Zeh'' ''Zeh'' ''MOD_ROCKET'') = 1 \<and>
   mapGet (killsByMeans (registerKill newMatchParser ''Zeh'' ''Zeh'' ''MOD_ROCKET'')) ''MOD_ROCKET'' = 1"
proof -
  have h: "''Zeh'' \<noteq> ''<world>''" by simp
  show ?thesis
    using self_kill_changes_no_differential[OF h, of newMatchParser "''MOD_ROCKET''"]
    by (simp add: newMatchParser_def mapGet_def)
qed

text \<open>
  The older \<open>registerKillEvent\<close> does not tell a self-kill from any other kill: the killer's
  differential grows by 1.
\<close>

theorem registerKillEvent_counts_self_kill:
  "mapGet (kills newMatchInfo) ''Zeh'' = 0 \<and>
   mapGet (kills (registerKillEvent newMatchInfo ''Zeh'' ''Zeh'' ''MOD_ROCKET'')) ''Zeh'' = 1"
  by (simp add: kill_defs newMatchInfo_def)

text \<open>
  Claim C1 says that \<open>totalKills\<close> of a finished match is the number of kill events
  processed in it. \<open>registerKillEvent\<close> of the older version never writes \<open>totalKills\<close>: a
  match with two kill events is returned with \<open>TotalKills = 0\<close>.
\<close>

theorem ParseLog_sep_totalKills_stays_zero:
  "ParseLog_sep byName
     \<lparr>tokens = [''  0:00 InitGame:'',
                ''  0:05 Kill: 2 3 7: Isgalamido killed Mocinha by MOD_ROCKET'',
                ''  0:09 Kill: 3 2 7: Mocinha killed Isgalamido by MOD_ROCKET''],
      failure = None, late = 0\<rparr>
   = Inr [\<lparr>TotalKills = 0, Players = [''Isgalamido'', ''Mocinha''],
           Kills = [''Isgalamido'' \<mapsto> 1, ''Mocinha'' \<mapsto> 1],
           KillsByMeans = [''MOD_ROCKET'' \<mapsto> 2]\<rparr>]"
  by (simp add: rx_eval ParseLog_sep_def toMatch_sep_def newMatchInfo_def getPlayerList_sep_def
      rangeKeys_def byName_def isgalamidoLast_def kill_defs fun_upd_twist insert_Diff_if)

text \<open>
  Claim C2 says that \<open>ShutdownGame:\<close> and a divider line both close the open match.
  \<open>matchParser.parseEvent\<close> only tests for the prefix of dashes: on \<open>ShutdownGame:\<close> it
  returns the same open parser and appends nothing, so after \<open>InitGame:\<close> and
  \<open>ShutdownGame:\<close> the parser is still in a match and holds no finished match.
\<close>

theorem matchParser_ignores_ShutdownGame:
  "matchParser_parseEvent rk m p ''ShutdownGame:'' = Inr (MatchParser m, p) \<and>
   (case logParser_parseEvent rk newLogParser ''InitGame:'' of
      Inl e \<Rightarrow> False
    | Inr p1 \<Rightarrow>
        logParser_parseEvent rk p1 ''ShutdownGame:''
        = Inr \<lparr>evParser = MatchParser newMatchParser, matches = []\<rparr>)"
  by (simp add: matchParser_parseEvent_def logParser_parseEvent_def
      lookingForGameParser_parseEvent_def newLogParser_def rx_eval)

lemma matchParser_closes_on_divider:
  "HasPrefix event ''---'' \<Longrightarrow>
   matchParser_parseEvent rk m p event
   = Inr (LookingForGameParser,
          p\<lparr>matches := matches p @ [\<lparr>TotalKills = totalKills m, Players = getPlayerList rk m,
                                     Kills = kills m, KillsByMeans = killsByMeans m\<rparr>]\<rparr>)"
  by (simp add: matchParser_parseEvent_def)

text \<open>
  Claim C8 says that the players of a finished match and the keys of its kills map are
  equally many. A kill of \<open><world>\<close> by \<open><world>\<close> skips the sentinel in the loop over killer and
  victim, and then decrements \<open>kills[killed]\<close>, which creates the key \<open><world>\<close>: the finished
  match has no player and one key. The older \<open>registerKillEvent\<close> does the same.
\<close>

theorem world_kills_world_breaks_roster:
  "(case ParseLog byName
           \<lparr>tokens = [''  0:00 InitGame:'',
                      ''  0:05 Kill: 1022 1022 22: <world> killed <world> by MOD_TRIGGER_HURT'',
                      '' 26  0:00 ------------''],
            failure = None, late = 0\<rparr> of
      Inr [M] \<Rightarrow>
        Players M = [] \<and> dom (Kills M) = {''<world>''} \<and> Kills M ''<world>'' = Some (- 1) \<and>
        length (Players M) \<noteq> card (dom (Kills M))
    | _ \<Rightarrow> False) \<and>
   players (registerKillEvent newMatchInfo ''<world>'' ''<world>'' ''MOD_TRIGGER_HURT'') = {} \<and>
   dom (kills (registerKillEvent newMatchInfo ''<world>'' ''<world>'' ''MOD_TRIGGER_HURT''))
     = {''<world>''}"
  by (simp add: rx_eval ParseLog_def newLogParser_def lookingForGameParser_parseEvent_def
      matchParser_parseEvent_def newMatchParser_def newMatchInfo_def getPlayerList_def
      rangeKeys_def byName_def isgalamidoLast_def kill_defs)

subsection \<open>The player list\<close>

lemma getPlayerList_sorted_distinct:
  "sorted (getPlayerList rk m) \<and> distinct (getPlayerList rk m)"
  by (simp add: getPlayerList_def rangeKeys_def byName_def isgalamidoLast_def)

lemma getPlayerList_sep_distinct: "distinct (getPlayerList_sep rk m)"
  by (simp add: getPlayerList_sep_def rangeKeys_def byName_def isgalamidoLast_def)

lemma eventParser_parseEvent_matches:
  assumes "eventParser_parseEvent rk st p ev = Inr (nxt, p')"
  shows "matches p' = matches p \<or>
         (\<exists>m. st = MatchParser m \<and> HasPrefix ev ''---'' \<and> nxt = LookingForGameParser \<and>
              matches p' = matches p @ [\<lparr>TotalKills = totalKills m, Players = getPlayerList rk m,
                                         Kills = kills m, KillsByMeans = killsByMeans m\<rparr>])"
proof (cases st)
  case LookingForGameParser
  with assms show ?thesis by (auto simp: lookingForGameParser_parseEvent_def split: if_splits)
next
  case (MatchParser m)
  show ?thesis
  proof (cases "HasPrefix ev ''---''")
    case True
    with assms MatchParser show ?thesis by (auto simp: matchParser_closes_on_divider)
  next
    case False
    with assms MatchParser matchParser_parseEvent_stays[OF False, of rk m p]
    show ?thesis by auto
  qed
qed

lemma parseLines_matches_invariant:
  assumes "\<And>m. P \<lparr>TotalKills = totalKills m, Players = getPlayerList rk m,
                    Kills = kills m, KillsByMeans = killsByMeans m\<rparr>"
    and "\<forall>M \<in> set (matches p). P M"
    and "parseLines rk p n ls = Inr p'"
  shows "\<forall>M \<in> set (matches p'). P M"
  using assms(2,3)
proof (induction ls arbitrary: p n)
  case Nil
  then show ?case by simp
next
  case (Cons l ls)
  show ?case
  proof (cases "lineEvent l")
    case None
    with Cons.prems show ?thesis by (simp add: lineEvent_None)
  next
    case (Some ev)
    then obtain nxt q where
      ev: "eventParser_parseEvent rk (evParser p) p ev = Inr (nxt, q)"
      and st: "parseLines rk p n (l # ls) = parseLines rk (q\<lparr>evParser := nxt\<rparr>) (n + 1) ls"
      using parseLines_step[of l ev rk p n ls] by blast
    have "\<forall>M \<in> set (matches (q\<lparr>evParser := nxt\<rparr>)). P M"
      using eventParser_parseEvent_matches[OF ev] Cons.prems(1) assms(1) by auto
    moreover have "parseLines rk (q\<lparr>evParser := nxt\<rparr>) (n + 1) ls = Inr p'"
      using st Cons.prems(2) by (simp del: parseLines.simps)
    ultimately show ?thesis by (rule Cons.IH)
  qed
qed

lemma parseLines_sep_step:
  "parseLines_sep rk cur ms (l # ls) = Inr r \<Longrightarrow>
   \<exists>cur1 ms1. parseLines_sep rk cur1 ms1 ls = Inr r \<and>
     (ms1 = ms \<or> ms1 = ms @ [toMatch_sep rk cur])"
  by (auto split: list.splits if_splits)

lemma parseLines_sep_matches_invariant:
  assumes "\<And>m. P (toMatch_sep rk m)"
    and "\<forall>M \<in> set ms. P M"
    and "parseLines_sep rk cur ms ls = Inr (cur', ms')"
  shows "\<forall>M \<in> set ms'. P M"
  using assms(2,3)
proof (induction ls arbitrary: cur ms)
  case Nil
  then show ?case by simp
next
  case (Cons l ls)
  from parseLines_sep_step[OF Cons.prems(2)] obtain cur1 ms1 where
    r: "parseLines_sep rk cur1 ms1 ls = Inr (cur', ms')"
    and ms1: "ms1 = ms \<or> ms1 = ms @ [toMatch_sep rk cur]"
    by blast
  have "\<forall>M \<in> set ms1. P M" using ms1 Cons.prems(1) assms(1) by auto
  then show ?case using r by (rule Cons.IH)
qed

text \<open>
  Claim C7, as the code has it: in every match that the state-machine \<open>ParseLog\<close> returns,
  \<open>Players\<close> is in ascending order and has no duplicates, whatever order the map was ranged
  in. In every match that the older \<open>ParseLog\<close> returns, \<open>Players\<close> has no duplicates; its
  order is the order of the map iteration.
\<close>

theorem players_sorted_and_distinct:
  "(ParseLog rk log = Inr ms \<longrightarrow> (\<forall>M \<in> set ms. sorted (Players M) \<and> distinct (Players M))) \<and>
   (ParseLog_sep rk log = Inr ms' \<longrightarrow> (\<forall>M \<in> set ms'. distinct (Players M)))"
proof (intro conjI impI)
  assume a: "ParseLog rk log = Inr ms"
  then obtain p where p: "parseLines rk newLogParser 0 (tokens log) = Inr p" and ms: "ms = matches p"
    by (auto simp: ParseLog_def split: sum.splits option.splits eventParser.splits)
  have "\<forall>M \<in> set (matches p). sorted (Players M) \<and> distinct (Players M)"
    by (rule parseLines_matches_invariant[OF _ _ p])
       (simp_all add: getPlayerList_sorted_distinct newLogParser_def)
  then show "\<forall>M \<in> set ms. sorted (Players M) \<and> distinct (Players M)" using ms by simp
next
  assume a: "ParseLog_sep rk log = Inr ms'"
  then obtain cur ms0 rest where
    p: "parseLines_sep rk newMatchInfo [] rest = Inr (cur, ms0)" and ms: "ms' = ms0 @ [toMatch_sep rk cur]"
    by (auto simp: ParseLog_sep_def Let_def split: sum.splits option.splits prod.splits)
  have "\<forall>M \<in> set ms0. distinct (Players M)"
    by (rule parseLines_sep_matches_invariant[OF _ _ p])
       (simp_all add: toMatch_sep_def getPlayerList_sep_distinct)
  then show "\<forall>M \<in> set ms'. distinct (Players M)"
    using ms by (simp add: toMatch_sep_def getPlayerList_sep_distinct)
qed

text \<open>
  The older \<open>getPlayerList\<close> does not sort: under an iteration order that visits
  \<open>Isgalamido\<close> last, the players come out in descending order.
\<close>

theorem ParseLog_sep_players_unsorted:
  "ParseLog_sep isgalamidoLast
     \<lparr>tokens = [''  0:00 InitGame:'',
                '' 20:54 Kill: 2 3 7: Isgalamido killed Mocinha by MOD_ROCKET''],
      failure = None, late = 0\<rparr>
   = Inr [\<lparr>TotalKills = 0, Players = [''Mocinha'', ''Isgalamido''],
           Kills = [''Isgalamido'' \<mapsto> 1, ''Mocinha'' \<mapsto> 0],
           KillsByMeans = [''MOD_ROCKET'' \<mapsto> 1]\<rparr>] \<and>
   \<not> sorted [''Mocinha'', ''Isgalamido'']"
  by (simp add: rx_eval ParseLog_sep_def toMatch_sep_def newMatchInfo_def getPlayerList_sep_def
      rangeKeys_def byName_def isgalamidoLast_def kill_defs insert_Diff_if fun_upd_twist)

theorem players_sorted_and_distinct_witness:
  "(case ParseLog isgalamidoLast
           \<lparr>tokens = [''  0:00 InitGame:'',
                      '' 20:54 Kill: 2 3 7: Mocinha killed Isgalamido by MOD_ROCKET'',
                      '' 20:55 ------------''],
            failure = None, late = 0\<rparr> of
      Inr [M] \<Rightarrow> Players M = [''Isgalamido'', ''Mocinha''] \<and> sorted (Players M) \<and> distinct (Players M)
    | _ \<Rightarrow> False)"
proof -
  let ?rk = isgalamidoLast
  let ?log = "\<lparr>tokens = [''  0:00 InitGame:'',
                      '' 20:54 Kill: 2 3 7: Mocinha killed Isgalamido by MOD_ROCKET'',
                      '' 20:55 ------------''],
            failure = None, late = 0\<rparr>"
  let ?M = "\<lparr>TotalKills = 1, Players = [''Isgalamido'', ''Mocinha''],
           Kills = [''Isgalamido'' \<mapsto> 0, ''Mocinha'' \<mapsto> 1],
           KillsByMeans = [''MOD_ROCKET'' \<mapsto> 1]\<rparr>"
  have r: "ParseLog ?rk ?log = Inr [?M]"
    by (simp add: rx_eval ParseLog_def newLogParser_def lookingForGameParser_parseEvent_def
        matchParser_parseEvent_def newMatchParser_def getPlayerList_def
        rangeKeys_def byName_def isgalamidoLast_def kill_defs insert_Diff_if)
  from players_sorted_and_distinct[of ?rk ?log "[?M]"] r
  have "sorted (Players ?M) \<and> distinct (Players ?M)" by simp
  with r show ?thesis by simp
qed

subsection \<open>The result formatter\<close>

lemmas json_eval = objectKeys_def skipWs_def isWs_def dquote_def bslash_def skipValue_def
  isDelim_def

lemma dec_digits: "c \<in> set (dec n) \<Longrightarrow> c \<in> set digitChars"
proof (induction n rule: dec.induct)
  case (1 n)
  show ?case
  proof (cases "n < 10")
    case True
    with "1.prems" have "c = digitChars ! n" by (subst (asm) dec.simps) simp
    moreover have "digitChars ! n \<in> set digitChars"
      by (rule nth_mem) (use True in \<open>simp add: digitChars_def\<close>)
    ultimately show ?thesis by simp
  next
    case False
    with "1.prems" have "c \<in> set (dec (n div 10)) \<or> c = digitChars ! (n mod 10)"
      by (subst (asm) dec.simps) auto
    moreover have "digitChars ! (n mod 10) \<in> set digitChars"
      by (rule nth_mem) (simp add: digitChars_def)
    ultimately show ?thesis using "1.IH"[OF False] by blast
  qed
qed

lemma gameKey_plain: "c \<in> set (gameKey i) \<Longrightarrow> c \<noteq> dquote \<and> c \<noteq> bslash"
  using dec_digits[of c i]
  by (auto simp: gameKey_def digitChars_def dquote_def bslash_def)

lemma readString_plain:
  "\<forall>c \<in> set k. c \<noteq> dquote \<and> c \<noteq> bslash \<Longrightarrow> readString (k @ dquote # r) = Some (k, r)"
proof (induction k)
  case Nil
  then show ?case by (cases r) simp_all
next
  case (Cons c k)
  then have ih: "readString (k @ dquote # r) = Some (k, r)" by simp
  obtain e cs where e: "k @ dquote # r = e # cs" by (cases "k @ dquote # r") auto
  then show ?case using Cons.prems ih by simp
qed

lemma skipWs_simps:
  "skipWs [] = []"
  "skipWs (dquote # s) = dquote # s"
  "skipWs (CHR '':'' # s) = CHR '':'' # s"
  "skipWs (CHR '','' # s) = CHR '','' # s"
  "skipWs (CHR ''}'' # s) = CHR ''}'' # s"
  "skipWs (CHR ''{'' # s) = CHR ''{'' # s"
  by (simp_all add: skipWs_def isWs_def dquote_def)

lemma members_one:
  assumes "jsonValue js"
  shows "members (Suc n) (dquote # gameKey i @ dquote # CHR '':'' # js @ ''}'') = Some [gameKey i]"
proof -
  have k: "\<forall>c \<in> set (gameKey i). c \<noteq> dquote \<and> c \<noteq> bslash" using gameKey_plain by blast
  have v: "skipValue (js @ ''}'') = Some ''}''" using assms by (simp add: jsonValue_def)
  show ?thesis
    by (simp add: skipWs_simps readString_plain[OF k] v)
qed

lemma members_more:
  assumes "jsonValue js"
  shows "members (Suc n) (dquote # gameKey i @ dquote # CHR '':'' # js @ CHR '','' # rest)
         = map_option ((#) (gameKey i)) (members n rest)"
proof -
  have k: "\<forall>c \<in> set (gameKey i). c \<noteq> dquote \<and> c \<noteq> bslash" using gameKey_plain by blast
  have v: "skipValue (js @ CHR '','' # rest) = Some (CHR '','' # rest)"
    using assms by (simp add: jsonValue_def)
  show ?thesis
    by (simp add: skipWs_simps readString_plain[OF k] v)
qed

lemma marshalGames_keys:
  assumes "\<forall>g \<in> set games. \<exists>js. marshal g = Inr js \<and> jsonValue js"
    and "games \<noteq> []" and "len = i + length games"
  shows "\<exists>out. marshalGames marshal len i buff games = Inr (buff @ dquote # out) \<and>
           length games \<le> length out \<and>
           (\<forall>n \<ge> length games. members n (dquote # out @ ''}'')
              = Some (map gameKey [Suc i ..< Suc len]))"
  using assms
proof (induction games arbitrary: i buff)
  case Nil
  then show ?case by simp
next
  case (Cons g rest)
  from Cons.prems(1) obtain js where js: "marshal g = Inr js" and jv: "jsonValue js" by auto
  let ?head = "gameKey (Suc i) @ dquote # CHR '':'' # js"
  show ?case
  proof (cases "rest = []")
    case True
    with Cons.prems(3) have len: "len = Suc i" by simp
    have r: "marshalGames marshal len i buff (g # rest) = Inr (buff @ dquote # ?head)"
      using True js len by (simp add: gameKey_def dquote_def Let_def)
    have "\<forall>n \<ge> length (g # rest). members n (dquote # ?head @ ''}'') = Some (map gameKey [Suc i ..< Suc len])"
    proof (intro allI impI)
      fix n assume "length (g # rest) \<le> n"
      then obtain n' where "n = Suc n'" by (cases n) auto
      then show "members n (dquote # ?head @ ''}'') = Some (map gameKey [Suc i ..< Suc len])"
        using members_one[OF jv, of n' "Suc i"] len by simp
    qed
    moreover have "length (g # rest) \<le> length ?head" using True by simp
    ultimately show ?thesis using r by blast
  next
    case False
    have len': "len = Suc i + length rest" using Cons.prems(3) by simp
    from False have "0 < length rest" by simp
    then have hn: "int i < int len - 1" by (simp add: len')
    obtain out where
      o1: "marshalGames marshal len (Suc i) (buff @ dquote # ?head @ '','') rest
           = Inr ((buff @ dquote # ?head @ '','') @ dquote # out)"
      and o2: "length rest \<le> length out"
      and o3: "\<forall>n \<ge> length rest. members n (dquote # out @ ''}'')
                 = Some (map gameKey [Suc (Suc i) ..< Suc len])"
      using Cons.IH[OF _ False len', of "buff @ dquote # ?head @ '',''"] Cons.prems(1) by auto
    have r: "marshalGames marshal len i buff (g # rest)
             = Inr (buff @ dquote # (?head @ CHR '','' # dquote # out))"
      using js hn o1 by (simp add: gameKey_def dquote_def Let_def)
    have "\<forall>n \<ge> length (g # rest). members n (dquote # (?head @ CHR '','' # dquote # out) @ ''}'')
            = Some (map gameKey [Suc i ..< Suc len])"
    proof (intro allI impI)
      fix n assume n: "length (g # rest) \<le> n"
      then obtain n' where n': "n = Suc n'" by (cases n) auto
      with n have "length rest \<le> n'" by simp
      with o3 have "members n' (dquote # out @ ''}'') = Some (map gameKey [Suc (Suc i) ..< Suc len])"
        by blast
      moreover have "[Suc i ..< Suc len] = Suc i # [Suc (Suc i) ..< Suc len]"
        by (rule upt_conv_Cons) (simp add: len')
      ultimately show "members n (dquote # (?head @ CHR '','' # dquote # out) @ ''}'')
            = Some (map gameKey [Suc i ..< Suc len])"
        using members_more[OF jv, of n' "Suc i" "dquote # out @ ''}''"] n' by simp
    qed
    moreover have "length (g # rest) \<le> length (?head @ CHR '','' # dquote # out)"
      using o2 by simp
    ultimately show ?thesis using r by blast
  qed
qed

text \<open>
  Claim C9: for a sequence of \<open>N\<close> matches, each of which \<open>json.Marshal\<close> renders as a JSON value,
  \<open>MarshalJSON\<close> succeeds, and reading the keys of the object it wrote yields exactly
  \<open>game_1\<close>, ..., \<open>game_N\<close>, in this order.
\<close>

theorem MarshalJSON_keys_round_trip:
  assumes "\<forall>g \<in> set ms. \<exists>js. marshal g = Inr js \<and> jsonValue js"
  shows "\<exists>bytes. MarshalJSON marshal ms = Inr bytes \<and>
           objectKeys bytes = Some (map gameKey [1 ..< Suc (length ms)])"
proof (cases "ms = []")
  case True
  then show ?thesis by (simp add: MarshalJSON_def json_eval)
next
  case False
  obtain out where
    o1: "marshalGames marshal (length ms) 0 ''{'' ms = Inr (''{'' @ dquote # out)"
    and o2: "length ms \<le> length out"
    and o3: "\<forall>n \<ge> length ms. members n (dquote # out @ ''}'')
               = Some (map gameKey [Suc 0 ..< Suc (length ms)])"
    using marshalGames_keys[OF assms False, of "length ms" 0 "''{''"] by auto
  have b: "MarshalJSON marshal ms = Inr (CHR ''{'' # dquote # out @ ''}'')"
    using o1 by (simp add: MarshalJSON_def)
  have "objectKeys (CHR ''{'' # dquote # out @ ''}'')
        = members (length (CHR ''{'' # dquote # out @ ''}'')) (dquote # out @ ''}'')"
    by (simp add: objectKeys_def skipWs_simps) (simp add: dquote_def)
  also have "\<dots> = Some (map gameKey [Suc 0 ..< Suc (length ms)])"
  proof -
    have "length ms \<le> length (CHR ''{'' # dquote # out @ ''}'')" using o2 by simp
    with o3 show ?thesis by blast
  qed
  finally show ?thesis using b by (simp del: upt_Suc)
qed

theorem MarshalJSON_keys_round_trip_witness:
  "MarshalJSON (\<lambda>g. Inr (''{'' @ dquote # ''total_kills'' @ dquote # '':'' @ itoa (sint (TotalKills g)) @ ''}''))
     [\<lparr>TotalKills = 0, Players = [], Kills = Map.empty, KillsByMeans = Map.empty\<rparr>,
      \<lparr>TotalKills = 4, Players = [], Kills = Map.empty, KillsByMeans = Map.empty\<rparr>]
   = Inr (''{'' @ dquote # ''game_1'' @ dquote # '':{'' @ dquote # ''total_kills'' @ dquote # '':0},''
              @ dquote # ''game_2'' @ dquote # '':{'' @ dquote # ''total_kills'' @ dquote # '':4}}'') \<and>
   objectKeys (''{'' @ dquote # ''game_1'' @ dquote # '':{'' @ dquote # ''total_kills'' @ dquote # '':0},''
                 @ dquote # ''game_2'' @ dquote # '':{'' @ dquote # ''total_kills'' @ dquote # '':4}}'')
   = Some [''game_1'', ''game_2'']"
proof -
  let ?marshal = "\<lambda>g. Inr (''{'' @ dquote # ''total_kills'' @ dquote # '':'' @ itoa (sint (TotalKills g)) @ ''}'')
                    :: error + string"
  let ?ms = "[\<lparr>TotalKills = 0, Players = [], Kills = Map.empty, KillsByMeans = Map.empty\<rparr>,
              \<lparr>TotalKills = 4, Players = [], Kills = Map.empty, KillsByMeans = Map.empty\<rparr>]"
  have d: "dec 0 = ''0''" "dec 1 = ''1''" "dec 2 = ''2''" "dec 4 = ''4''"
    "dec (Suc 0) = ''1''" "dec (Suc (Suc 0)) = ''2''"
    by (simp_all add: dec.simps digitChars_def)
  have h: "\<forall>g \<in> set ?ms. \<exists>js. ?marshal g = Inr js \<and> jsonValue js"
    by (simp add: jsonValue_def itoa_def d json_eval)
  have m: "MarshalJSON ?marshal ?ms
           = Inr (''{'' @ dquote # ''game_1'' @ dquote # '':{'' @ dquote # ''total_kills'' @ dquote # '':0},''
              @ dquote # ''game_2'' @ dquote # '':{'' @ dquote # ''total_kills'' @ dquote # '':4}}'')"
    by (simp add: MarshalJSON_def itoa_def d dquote_def)
  from MarshalJSON_keys_round_trip[OF h] m show ?thesis
    by (simp add: gameKey_def d numeral_2_eq_2)
qed

lemma MarshalJSON_error:
  "marshal g = Inl err \<Longrightarrow> \<forall>x \<in> set pre. \<exists>js. marshal x = Inr js \<Longrightarrow>
   MarshalJSON marshal (pre @ g # post) = Inl err"
proof -
  assume e: "marshal g = Inl err" and ok: "\<forall>x \<in> set pre. \<exists>js. marshal x = Inr js"
  have "marshalGames marshal len i buff (pre @ g # post) = Inl err" for len i buff
    using ok
  proof (induction pre arbitrary: i buff)
    case Nil
    then show ?case using e by simp
  next
    case (Cons x pre)
    then obtain js where "marshal x = Inr js" by auto
    then show ?case using Cons by (simp add: Let_def)
  qed
  then show ?thesis by (simp add: MarshalJSON_def)
qed

subsection \<open>Counts and roster in the state-machine version\<close>

text \<open>
  Every registration keeps the player set equal to the key set of the kills map, unless
  killer and victim are both the sentinel.
\<close>

lemma registerKill_roster:
  assumes "players m = dom (kills m)" and "\<not> (killer = ''<world>'' \<and> killed = ''<world>'')"
  shows "players (registerKill m killer killed cause) = dom (kills (registerKill m killer killed cause))"
  using assms by (auto simp: kill_defs Let_def split: if_splits)

lemma registerKillEvent_roster:
  assumes "players m = dom (kills m)" and "\<not> (killer = ''<world>'' \<and> killed = ''<world>'')"
  shows "players (registerKillEvent m killer killed cause)
         = dom (kills (registerKillEvent m killer killed cause))"
  using assms by (auto simp: kill_defs Let_def split: if_splits)

text \<open>
  In the state-machine version a match that is opened by \<open>InitGame:\<close> and closed by a divider is
  appended with \<open>TotalKills\<close> equal to the number of kill lines in between (in 64-bit
  arithmetic).
\<close>

lemma matchParser_parseEvent_totalKills:
  assumes "\<not> HasPrefix ev ''---''"
  shows "\<exists>m'. matchParser_parseEvent rk m p ev = Inr (MatchParser m', p) \<and>
           totalKills m' = totalKills m + (if FindStringSubmatch killExpr ev = [] then 0 else 1)"
  using assms FindStringSubmatch_killExpr[of ev]
  by (auto simp: matchParser_parseEvent_def registerKill_totalKills)

lemma open_segment_totalKills:
  assumes "\<forall>x \<in> set ls. lineEvent x \<noteq> None"
    and "\<forall>x \<in> set ls. \<forall>ev. lineEvent x = Some ev \<longrightarrow> \<not> HasPrefix ev ''---''"
    and "evParser p = MatchParser m"
  shows "\<exists>p' m'. parseLines rk p n ls = Inr p' \<and> evParser p' = MatchParser m' \<and>
           matches p' = matches p \<and>
           totalKills m' = totalKills m + of_nat (length (filter killLine ls))"
  using assms
proof (induction ls arbitrary: p n m)
  case Nil
  then show ?case by simp
next
  case (Cons l ls)
  then obtain ev where ev: "lineEvent l = Some ev" by auto
  with Cons.prems have nd: "\<not> HasPrefix ev ''---''" by simp
  obtain m' where m': "matchParser_parseEvent rk m p ev = Inr (MatchParser m', p)"
    and tk: "totalKills m' = totalKills m + (if FindStringSubmatch killExpr ev = [] then 0 else 1)"
    using matchParser_parseEvent_totalKills[OF nd] by blast
  from m' Cons.prems(3) have "eventParser_parseEvent rk (evParser p) p ev = Inr (MatchParser m', p)"
    by simp
  with parseLines_step[OF ev, of rk p n ls]
  have st: "parseLines rk p n (l # ls) = parseLines rk (p\<lparr>evParser := MatchParser m'\<rparr>) (n + 1) ls"
    by (auto simp del: parseLines.simps)
  have "\<exists>p' m''. parseLines rk (p\<lparr>evParser := MatchParser m'\<rparr>) (n + 1) ls = Inr p' \<and>
          evParser p' = MatchParser m'' \<and> matches p' = matches (p\<lparr>evParser := MatchParser m'\<rparr>) \<and>
          totalKills m'' = totalKills m' + of_nat (length (filter killLine ls))"
    using Cons.prems by (intro Cons.IH) auto
  then obtain p' m'' where
    r: "parseLines rk (p\<lparr>evParser := MatchParser m'\<rparr>) (n + 1) ls = Inr p'"
       "evParser p' = MatchParser m''" "matches p' = matches p"
       "totalKills m'' = totalKills m' + of_nat (length (filter killLine ls))"
    by auto
  have "totalKills m'' = totalKills m + of_nat (length (filter killLine (l # ls)))"
    using r(4) tk ev by (simp add: killLine_def)
  with r st show ?case by (auto simp del: parseLines.simps)
qed

lemma finished_match_totalKills:
  assumes "evParser p = LookingForGameParser"
    and "lineEvent i = Some ei" and "HasPrefix ei ''InitGame:''"
    and "\<forall>x \<in> set seg. lineEvent x \<noteq> None"
    and "\<forall>x \<in> set seg. \<forall>ev. lineEvent x = Some ev \<longrightarrow> \<not> HasPrefix ev ''---''"
    and "lineEvent d = Some ed" and "HasPrefix ed ''---''"
  shows "\<exists>p' M. parseLines rk p n (i # seg @ [d]) = Inr p' \<and>
           evParser p' = LookingForGameParser \<and> matches p' = matches p @ [M] \<and>
           TotalKills M = of_nat (length (filter killLine seg))"
proof -
  have "eventParser_parseEvent rk (evParser p) p ei = Inr (MatchParser newMatchParser, p)"
    using assms(1,3) by (simp add: lookingForGameParser_parseEvent_def)
  with parseLines_step[OF assms(2), of rk p n "seg @ [d]"]
  have s1: "parseLines rk p n (i # seg @ [d])
            = parseLines rk (p\<lparr>evParser := MatchParser newMatchParser\<rparr>) (n + 1) (seg @ [d])"
    by (auto simp del: parseLines.simps)
  obtain p1 m1 where
    p1: "parseLines rk (p\<lparr>evParser := MatchParser newMatchParser\<rparr>) (n + 1) seg = Inr p1"
    and e1: "evParser p1 = MatchParser m1" and m1: "matches p1 = matches p"
    and t1: "totalKills m1 = of_nat (length (filter killLine seg))"
    using open_segment_totalKills[OF assms(4,5), of "p\<lparr>evParser := MatchParser newMatchParser\<rparr>"
        newMatchParser rk "n + 1"]
    by (auto simp: newMatchParser_def)
  have s2: "parseLines rk (p\<lparr>evParser := MatchParser newMatchParser\<rparr>) (n + 1) (seg @ [d])
            = parseLines rk p1 (n + 1 + of_nat (length seg)) [d]"
    using parseLines_append[OF p1] by simp
  let ?M = "\<lparr>TotalKills = totalKills m1, Players = getPlayerList rk m1,
             Kills = kills m1, KillsByMeans = killsByMeans m1\<rparr>"
  have "eventParser_parseEvent rk (evParser p1) p1 ed
        = Inr (LookingForGameParser, p1\<lparr>matches := matches p1 @ [?M]\<rparr>)"
    using e1 assms(7) by (simp add: matchParser_closes_on_divider)
  with parseLines_step[OF assms(6), of rk p1 "n + 1 + of_nat (length seg)" "[]"]
  have s3: "parseLines rk p1 (n + 1 + of_nat (length seg)) [d]
            = Inr (p1\<lparr>matches := matches p1 @ [?M], evParser := LookingForGameParser\<rparr>)"
    by (auto simp del: parseLines.simps(2))
  show ?thesis using s1 s2 s3 m1 t1 by (simp del: parseLines.simps)
qed

subsection \<open>Runs on lines of the log\<close>

text \<open>The header of a divider line that follows stray numbers, and of an ordinary line.\<close>

lemma lineHeaderExpr_examples:
  "FindStringIndex lineHeaderExpr '' 26  0:00 ------------'' = Some (0, 10)"
  "FindStringIndex lineHeaderExpr ''  0:00 InitGame: '' = Some (0, 7)"
  "FindStringIndex lineHeaderExpr ''981:27 ClientDisconnect: 2'' = Some (0, 7)"
  "FindStringIndex lineHeaderExpr ''InitGame:'' = None"
  by (simp_all add: rx_eval)

text \<open>Names may contain spaces; the groups are greedy.\<close>

lemma killExpr_examples:
  "FindStringSubmatch killExpr ''Kill: 1022 2 22: <world> killed Isgalamido by MOD_TRIGGER_HURT''
   = [''Kill: 1022 2 22: <world> killed Isgalamido by MOD_TRIGGER_HURT'',
      ''<world>'', ''Isgalamido'', ''MOD_TRIGGER_HURT'']"
  "FindStringSubmatch killExpr ''Kill: 3 2 6: Dono da Bola killed Zeh by MOD_ROCKET_SPLASH''
   = [''Kill: 3 2 6: Dono da Bola killed Zeh by MOD_ROCKET_SPLASH'',
      ''Dono da Bola'', ''Zeh'', ''MOD_ROCKET_SPLASH'']"
  "FindStringSubmatch killExpr ''ClientUserinfoChanged: 2 n killed by'' = []"
  by (simp_all add: rx_eval)

text \<open>
  The test \<open>TestMalformedLineHandling\<close>: its first line, \<open>InitGame:\<close>, has no header.
\<close>

lemma TestMalformedLineHandling:
  "ParseLog byName
     \<lparr>tokens = [''InitGame:'', ''Kill: 0 1 2: Isgalamido killed Mocinha by MOD_ROCKET'',
                ''BadLine'', ''ShutdownGame:''],
      failure = None, late = 0\<rparr>
   = Inl (LineMalformed 1) \<and>
   Error (LineMalformed 1) = ''line 1 is malformed''"
  by (simp add: rx_eval ParseLog_def itoa_def dec.simps digitChars_def)

text \<open>Two matches, each closed by a divider, come out in the order of the log.\<close>

lemma two_matches:
  "ParseLog byName
     \<lparr>tokens = [''  0:00 ------------'',
                ''  0:00 InitGame: '',
                ''  0:25 Kill: 2 3 6: Isgalamido killed Mocinha by MOD_ROCKET'',
                ''  1:47 ShutdownGame:'',
                ''  1:47 ------------'',
                ''  1:47 InitGame: '',
                ''  2:11 Kill: 1022 3 22: <world> killed Mocinha by MOD_TRIGGER_HURT'',
                ''  2:30 ------------''],
      failure = None, late = 0\<rparr>
   = Inr [\<lparr>TotalKills = 1, Players = [''Isgalamido'', ''Mocinha''],
           Kills = [''Isgalamido'' \<mapsto> 1, ''Mocinha'' \<mapsto> 0],
           KillsByMeans = [''MOD_ROCKET'' \<mapsto> 1]\<rparr>,
          \<lparr>TotalKills = 1, Players = [''Mocinha''], Kills = [''Mocinha'' \<mapsto> - 1],
           KillsByMeans = [''MOD_TRIGGER_HURT'' \<mapsto> 1]\<rparr>]"
  by (simp add: rx_eval ParseLog_def newLogParser_def lookingForGameParser_parseEvent_def
      matchParser_parseEvent_def newMatchParser_def getPlayerList_def
      rangeKeys_def byName_def kill_defs insert_Diff_if fun_upd_twist)

end
